theory Spec2Isabelle
  imports Main
begin

section \<open>Data model of \<^verbatim>\<open>implement_feature.ts\<close>\<close>

text \<open>
  Strings are lists of characters. A thrown JavaScript error is a value carrying
  its name and its message; \<^verbatim>\<open>`${error}`\<close> renders it as
  \<^verbatim>\<open>Error.prototype.toString\<close> does.
\<close>

datatype exn = Exn string string

fun message :: "exn \<Rightarrow> string" where
  "message (Exn n m) = m"

fun error_text :: "exn \<Rightarrow> string" where
  "error_text (Exn n m) = (if m = [] then n else if n = [] then m else n @ '': '' @ m)"

text \<open>
  An argument read off \<^verbatim>\<open>block.input\<close> is a string or, when the key is
  missing, \<^verbatim>\<open>undefined\<close>. \<open>to_text\<close> is the coercion a template literal,
  \<^verbatim>\<open>includes\<close> and \<^verbatim>\<open>replace\<close> apply.
\<close>

datatype jsval = JUndefined | JString string

fun to_text :: "jsval \<Rightarrow> string" where
  "to_text JUndefined = ''undefined''"
| "to_text (JString s) = s"

datatype log_type = LSystem | LTool | LMessage | LError

datatype meta_value = MNum nat | MText string

record LogEntry =
  timestamp :: string
  type :: log_type
  content :: string
  metadata :: "(string \<times> meta_value) list option"

text \<open>
  The file system as the program sees it: what \<^verbatim>\<open>readFileSync(p, 'utf8')\<close>
  yields for each path, the text of the file or the error it throws.
\<close>

type_synonym files = "string \<Rightarrow> exn + string"

datatype exec_result =
    Resolved string string
  | Rejected exn "string option" "string option"

datatype block =
    TextBlock string
  | ToolUseBlock string string "(string \<times> string) list"
  | OtherBlock

record response =
  content_blocks :: "block list"
  stop_reason :: string

datatype msg =
    UserText string
  | Assistant "block list"
  | ToolResults "(string \<times> string) list"

text \<open>
  The object written to \<^verbatim>\<open>claude-execution.log.json\<close>: the successful run
  writes \<^verbatim>\<open>{ logs, totalIterations }\<close>, the failed one \<^verbatim>\<open>{ logs, error }\<close>.
\<close>

record snapshot =
  snapshot_logs :: "LogEntry list"
  totalIterations :: "nat option"
  error_message :: "string option"

text \<open>
  What the program takes from outside, as parameters: the clock, the serialisers of a
  log entry and of the snapshot, the stack text of an error, the \<^verbatim>\<open>TypeError\<close> the runtime throws where an undefined value is
  used (by site), the errors of the writing primitives, the subprocess primitive (with its
  \<^verbatim>\<open>maxBuffer\<close> option and its effect on the files), construction of the
  client, the environment variables, and the completion endpoint (its reply to the
  n-th request, given the system prompt and the transcript).
\<close>

record env =
  now :: "nat \<Rightarrow> string"
  JSON_stringify :: "LogEntry \<Rightarrow> string"
  JSON_stringify_snapshot :: "snapshot \<Rightarrow> string"
  stack :: "exn \<Rightarrow> string"
  type_error :: "string \<Rightarrow> exn"
  mkdir_error :: "string \<Rightarrow> exn option"
  write_error :: "string \<Rightarrow> exn option"
  exec :: "string \<Rightarrow> nat option \<Rightarrow> files \<Rightarrow> exec_result \<times> files"
  client_error :: "exn option"
  getenv :: "string \<Rightarrow> string option"
  create :: "nat \<Rightarrow> string \<Rightarrow> msg list \<Rightarrow> exn + response"

text \<open>
  The mutable state: the global \<^verbatim>\<open>logs\<close> array, the files, and, as an
  observation of the run only, the completion requests issued so far (the value of
  \<^verbatim>\<open>iterationCount\<close> and the transcript sent).
\<close>

record state =
  logs :: "LogEntry list"
  fs :: files
  requests :: "(nat \<times> msg list) list"

section \<open>Logging\<close>

definition log_path :: string where
  "log_path = ''claude-execution.log''"

definition newline :: char where
  "newline = CHR 0x0A"

definition appendFileSync :: "string \<Rightarrow> string \<Rightarrow> files \<Rightarrow> files" where
  "appendFileSync p s f = f(p := Inr (case f p of Inr c \<Rightarrow> c @ s | Inl e \<Rightarrow> s))"

text \<open>
  \<^verbatim>\<open>log\<close>: push the entry, then append its line to the log file. Console
  output is not modelled, and appending to the log file is taken never to throw.
\<close>

definition log :: "env \<Rightarrow> log_type \<Rightarrow> string \<Rightarrow> (string \<times> meta_value) list option \<Rightarrow> state \<Rightarrow> state" where
  "log e t c m s =
     (let entry = \<lparr>timestamp = now e (length (logs s)), type = t, content = c, metadata = m\<rparr>
      in s\<lparr>logs := logs s @ [entry],
           fs := appendFileSync log_path (JSON_stringify e entry @ [newline]) (fs s)\<rparr>)"

section \<open>String primitives\<close>

fun digit :: "nat \<Rightarrow> char" where
  "digit n = char_of (48 + n)"

fun show_nat :: "nat \<Rightarrow> string" where
  "show_nat n = (if n < 10 then [digit n] else show_nat (n div 10) @ [digit (n mod 10)])"

declare show_nat.simps [simp del]

text \<open>\<^verbatim>\<open>indexOf\<close>: the least position at which \<open>pat\<close> occurs, if any.\<close>

fun index_of :: "string \<Rightarrow> string \<Rightarrow> nat option" where
  "index_of [] pat = (if pat = [] then Some 0 else None)"
| "index_of (c # cs) pat =
     (if take (length pat) (c # cs) = pat then Some 0
      else map_option Suc (index_of cs pat))"

definition includes_text :: "string \<Rightarrow> string \<Rightarrow> bool" where
  "includes_text s pat = (index_of s pat \<noteq> None)"

text \<open>
  The replacement text of \<^verbatim>\<open>String.prototype.replace\<close> is a template:
  \<^verbatim>\<open>$$\<close> is a dollar sign, \<^verbatim>\<open>$&\<close> the matched text,
  \<^verbatim>\<open>$`\<close> the text before the match and \<^verbatim>\<open>$'\<close> the text after it.
  A string pattern has no capture groups, so any other \<^verbatim>\<open>$\<close> stands for itself.
\<close>

fun get_substitution :: "string \<Rightarrow> string \<Rightarrow> string \<Rightarrow> string \<Rightarrow> string" where
  "get_substitution matched preceding following [] = []"
| "get_substitution matched preceding following [c] = [c]"
| "get_substitution matched preceding following (c # d # r) =
     (if c = CHR ''$'' then
        (if d = CHR ''$'' then CHR ''$'' # get_substitution matched preceding following r
         else if d = CHR ''&'' then matched @ get_substitution matched preceding following r
         else if d = CHR 0x60 then preceding @ get_substitution matched preceding following r
         else if d = CHR 0x27 then following @ get_substitution matched preceding following r
         else c # get_substitution matched preceding following (d # r))
      else c # get_substitution matched preceding following (d # r))"

text \<open>\<^verbatim>\<open>content.replace(oldText, newText)\<close> with a string pattern: the first occurrence only.\<close>

definition replace :: "string \<Rightarrow> string \<Rightarrow> string \<Rightarrow> string" where
  "replace s pat rep =
     (case index_of s pat of
        None \<Rightarrow> s
      | Some i \<Rightarrow>
          (let preceding = take i s; following = drop (i + length pat) s
           in preceding @ get_substitution pat preceding following rep @ following))"

text \<open>
  \<^verbatim>\<open>trim\<close> (on the white space that fits in a \<open>char\<close>), \<^verbatim>\<open>split\<close>,
  \<^verbatim>\<open>filter(Boolean)\<close> and \<^verbatim>\<open>join\<close>.
\<close>

definition is_space :: "char \<Rightarrow> bool" where
  "is_space c = (c \<in> set [CHR 0x09, CHR 0x0A, CHR 0x0B, CHR 0x0C, CHR 0x0D, CHR 0x20, CHR 0xA0])"

definition trim :: "string \<Rightarrow> string" where
  "trim s = rev (dropWhile is_space (rev (dropWhile is_space s)))"

fun split :: "char \<Rightarrow> string \<Rightarrow> string list" where
  "split sep [] = [[]]"
| "split sep (x # xs) =
     (if x = sep then [] # split sep xs
      else (case split sep xs of [] \<Rightarrow> [[x]] | y # ys \<Rightarrow> (x # y) # ys))"

definition filter_Boolean :: "string list \<Rightarrow> string list" where
  "filter_Boolean xs = filter (\<lambda>x. x \<noteq> []) xs"

fun join :: "string \<Rightarrow> string list \<Rightarrow> string" where
  "join sep [] = []"
| "join sep [x] = x"
| "join sep (x # y # ys) = x @ sep @ join sep (y # ys)"

text \<open>\<^verbatim>\<open>x || ''\<close> on a value that is a string or undefined.\<close>

fun or_empty :: "string option \<Rightarrow> string" where
  "or_empty None = []"
| "or_empty (Some s) = s"

section \<open>File primitives\<close>

definition readFileSync :: "env \<Rightarrow> jsval \<Rightarrow> files \<Rightarrow> exn + string" where
  "readFileSync e p f =
     (case p of JUndefined \<Rightarrow> Inl (type_error e ''readFileSync'') | JString q \<Rightarrow> f q)"

definition writeFileSync :: "env \<Rightarrow> string \<Rightarrow> string \<Rightarrow> files \<Rightarrow> exn + files" where
  "writeFileSync e p c f =
     (case write_error e p of Some x \<Rightarrow> Inl x | None \<Rightarrow> Inr (f(p := Inr c)))"

section \<open>The class \<^verbatim>\<open>Tools\<close>\<close>

text \<open>Each tool returns its text and the state it leaves. The \<open>_catch\<close> functions are the \<^verbatim>\<open>catch\<close> blocks.\<close>

definition read_catch :: "env \<Rightarrow> jsval \<Rightarrow> exn \<Rightarrow> state \<Rightarrow> string \<times> state" where
  "read_catch e filePath err s =
     (let msg = ''Failed to read '' @ to_text filePath @ '': '' @ error_text err
      in (''Error: '' @ msg, log e LError msg None s))"

definition tools_read :: "env \<Rightarrow> jsval \<Rightarrow> state \<Rightarrow> string \<times> state" where
  "tools_read e filePath s =
     (let s1 = log e LTool (''Reading file: '' @ to_text filePath) None s
      in case readFileSync e filePath (fs s1) of
           Inl err \<Rightarrow> read_catch e filePath err s1
         | Inr c \<Rightarrow>
             (c, log e LTool (''Successfully read '' @ to_text filePath @ '' ('' @
                   show_nat (length c) @ '' chars)'') None s1))"

definition write_catch :: "env \<Rightarrow> jsval \<Rightarrow> exn \<Rightarrow> state \<Rightarrow> string \<times> state" where
  "write_catch e filePath err s =
     (let msg = ''Failed to write '' @ to_text filePath @ '': '' @ error_text err
      in (''Error: '' @ msg, log e LError msg None s))"

definition tools_write :: "env \<Rightarrow> jsval \<Rightarrow> jsval \<Rightarrow> state \<Rightarrow> string \<times> state" where
  "tools_write e filePath cont s =
     (case cont of
        JUndefined \<Rightarrow> write_catch e filePath (type_error e ''content.length'') s
      | JString c \<Rightarrow>
          (let s1 = log e LTool (''Writing file: '' @ to_text filePath)
                      (Some [(''contentLength'', MNum (length c))]) s
           in case filePath of
                JUndefined \<Rightarrow> write_catch e filePath (type_error e ''path.dirname'') s1
              | JString p \<Rightarrow>
                  (case mkdir_error e p of
                     Some err \<Rightarrow> write_catch e filePath err s1
                   | None \<Rightarrow>
                       (case writeFileSync e p c (fs s1) of
                          Inl err \<Rightarrow> write_catch e filePath err s1
                        | Inr f \<Rightarrow>
                            (''Successfully wrote '' @ p,
                             log e LTool (''Successfully wrote '' @ p) None (s1\<lparr>fs := f\<rparr>))))))"

definition edit_catch :: "env \<Rightarrow> jsval \<Rightarrow> exn \<Rightarrow> state \<Rightarrow> string \<times> state" where
  "edit_catch e filePath err s =
     (let msg = ''Failed to edit '' @ to_text filePath @ '': '' @ error_text err
      in (''Error: '' @ msg, log e LError msg None s))"

definition tools_edit :: "env \<Rightarrow> jsval \<Rightarrow> jsval \<Rightarrow> jsval \<Rightarrow> state \<Rightarrow> string \<times> state" where
  "tools_edit e filePath oldText newText s =
     (let s1 = log e LTool (''Editing file: '' @ to_text filePath) None s
      in case readFileSync e filePath (fs s1) of
           Inl err \<Rightarrow> edit_catch e filePath err s1
         | Inr c \<Rightarrow>
             (if \<not> includes_text c (to_text oldText) then
                (let msg = ''Old text not found in '' @ to_text filePath
                 in (''Error: '' @ msg, log e LError msg None s1))
              else
                (let newContent = replace c (to_text oldText) (to_text newText)
                 in case writeFileSync e (to_text filePath) newContent (fs s1) of
                      Inl err \<Rightarrow> edit_catch e filePath err s1
                    | Inr f \<Rightarrow>
                        (''Successfully edited '' @ to_text filePath,
                         log e LTool (''Successfully edited '' @ to_text filePath) None
                           (s1\<lparr>fs := f\<rparr>)))))"

definition maxBuffer :: nat where
  "maxBuffer = 10 * 1024 * 1024"

definition command_meta :: "jsval \<Rightarrow> (string \<times> meta_value) list" where
  "command_meta command =
     (case command of JUndefined \<Rightarrow> [] | JString c \<Rightarrow> [(''command'', MText c)])"

definition bash_catch :: "env \<Rightarrow> jsval \<Rightarrow> exn \<Rightarrow> string option \<Rightarrow> string option \<Rightarrow> state \<Rightarrow> string \<times> state" where
  "bash_catch e command err out errout s =
     (let msg = ''Bash command failed: '' @ message err
      in (''Error: '' @ msg @ [newline] @ ''Output: '' @ or_empty out @ [newline] @ or_empty errout,
          log e LError msg (Some (command_meta command)) s))"

definition tools_bash :: "env \<Rightarrow> jsval \<Rightarrow> state \<Rightarrow> string \<times> state" where
  "tools_bash e command s =
     (let s1 = log e LTool (''Executing bash: '' @ to_text command) None s
      in case command of
           JUndefined \<Rightarrow> bash_catch e command (type_error e ''exec'') None None s1
         | JString c \<Rightarrow>
             (case exec e c (Some maxBuffer) (fs s1) of
                (Rejected err out errout, f) \<Rightarrow> bash_catch e command err out errout (s1\<lparr>fs := f\<rparr>)
              | (Resolved out errout, f) \<Rightarrow>
                  (let output = out @ errout
                   in (if output = [] then ''Command executed successfully'' else output,
                       log e LTool ''Bash completed''
                         (Some (command_meta command @ [(''outputLength'', MNum (length output))]))
                         (s1\<lparr>fs := f\<rparr>)))))"

definition find_command :: "string \<Rightarrow> string" where
  "find_command pattern =
     ''find . -path '' @ [CHR 0x27] @ pattern @ [CHR 0x27] @ '' -type f 2>/dev/null | head -100''"

definition tools_glob :: "env \<Rightarrow> jsval \<Rightarrow> state \<Rightarrow> string \<times> state" where
  "tools_glob e pattern s =
     (let s1 = log e LTool (''Glob pattern: '' @ to_text pattern) None s
      in case exec e (find_command (to_text pattern)) None (fs s1) of
           (Rejected err out errout, f) \<Rightarrow>
             (let msg = ''Glob failed: '' @ error_text err
              in (''Error: '' @ msg, log e LError msg None (s1\<lparr>fs := f\<rparr>)))
         | (Resolved out errout, f) \<Rightarrow>
             (let files = filter_Boolean (split newline (trim out))
              in (join [newline] files,
                  log e LTool (''Found '' @ show_nat (length files) @ '' files matching '' @
                    to_text pattern) None (s1\<lparr>fs := f\<rparr>))))"

section \<open>Dispatch of one response\<close>

definition arg :: "(string \<times> string) list \<Rightarrow> string \<Rightarrow> jsval" where
  "arg input k = (case map_of input k of None \<Rightarrow> JUndefined | Some v \<Rightarrow> JString v)"

text \<open>
  The \<^verbatim>\<open>switch (block.name)\<close>. The \<^verbatim>\<open>try\<close> around it has nothing to
  catch here: the tools return their failures as text, and reading a key of the input object
  does not throw.
\<close>

definition dispatch :: "env \<Rightarrow> string \<Rightarrow> (string \<times> string) list \<Rightarrow> state \<Rightarrow> string \<times> state" where
  "dispatch e name input s =
     (if name = ''read'' then tools_read e (arg input ''path'') s
      else if name = ''write'' then tools_write e (arg input ''path'') (arg input ''content'') s
      else if name = ''edit'' then
        tools_edit e (arg input ''path'') (arg input ''old_text'') (arg input ''new_text'') s
      else if name = ''bash'' then tools_bash e (arg input ''command'') s
      else if name = ''glob'' then tools_glob e (arg input ''pattern'') s
      else (''Unknown tool: '' @ name, s))"

text \<open>
  The body of \<^verbatim>\<open>for (const block of response.content)\<close>, on
  \<^verbatim>\<open>hasToolUse\<close>, \<^verbatim>\<open>toolResults\<close> and the state. A tool result is the
  pair of \<^verbatim>\<open>tool_use_id\<close> and \<^verbatim>\<open>content\<close>.
\<close>

fun process_block :: "env \<Rightarrow> block \<Rightarrow> bool \<times> (string \<times> string) list \<times> state \<Rightarrow> bool \<times> (string \<times> string) list \<times> state" where
  "process_block e (TextBlock t) (hasToolUse, toolResults, s) =
     (hasToolUse, toolResults,
      log e LMessage (''Claude: '' @ take 200 t @ (if length t > 200 then ''...'' else [])) None s)"
| "process_block e (ToolUseBlock ident name input) (hasToolUse, toolResults, s) =
     (let s1 = log e LTool (''Tool call: '' @ name) (Some (map (\<lambda>(k, v). (k, MText v)) input)) s
      in case dispatch e name input s1 of
           (result, s2) \<Rightarrow> (True, toolResults @ [(ident, result)], s2))"
| "process_block e OtherBlock acc = acc"

fun process_content :: "env \<Rightarrow> block list \<Rightarrow> bool \<times> (string \<times> string) list \<times> state \<Rightarrow> bool \<times> (string \<times> string) list \<times> state" where
  "process_content e [] acc = acc"
| "process_content e (b # bs) acc = process_content e bs (process_block e b acc)"

section \<open>The conversation loop\<close>

definition MAX_ITERATIONS :: nat where
  "MAX_ITERATIONS = 20"

text \<open>
  The \<^verbatim>\<open>while\<close> loop. A rejected completion request leaves the loop with the
  error (\<open>Inl\<close>); otherwise the loop ends with the iteration count and the transcript.
\<close>

function conversation_loop :: "env \<Rightarrow> string \<Rightarrow> bool \<Rightarrow> nat \<Rightarrow> msg list \<Rightarrow> state \<Rightarrow> (exn + nat \<times> msg list) \<times> state" where
  "conversation_loop e sys continueLoop iterationCount messages s =
     (if continueLoop \<and> iterationCount < MAX_ITERATIONS then
        (let n = iterationCount + 1;
             s1 = log e LSystem (''Iteration '' @ show_nat n @ ''/'' @ show_nat MAX_ITERATIONS) None s;
             s2 = s1\<lparr>requests := requests s1 @ [(n, messages)]\<rparr>
         in case create e n sys messages of
              Inl err \<Rightarrow> (Inl err, s2)
            | Inr response \<Rightarrow>
                (let s3 = log e LMessage
                            (''Claude response (stop_reason: '' @ stop_reason response @ '')'') None s2
                 in case process_content e (content_blocks response) (False, [], s3) of
                      (hasToolUse, toolResults, s4) \<Rightarrow>
                        if stop_reason response = ''end_turn'' \<or> \<not> hasToolUse then
                          conversation_loop e sys False n messages
                            (log e LSystem ''Conversation ended'' None s4)
                        else
                          conversation_loop e sys True n
                            (messages @ [Assistant (content_blocks response)] @
                               (if length toolResults > 0 then [ToolResults toolResults] else []))
                            s4))
      else (Inr (iterationCount, messages), s))"
  by pat_completeness auto
termination
  by (relation "measure (\<lambda>(e, sys, c, i, m, s). MAX_ITERATIONS - i)") auto

declare conversation_loop.simps [simp del]

section \<open>\<^verbatim>\<open>implementFeature\<close>\<close>

definition systemPrompt :: "string \<Rightarrow> string" where
  "systemPrompt claudeMd = join [newline]
     [''You are an expert software engineer implementing features in this repository.'',
      [],
      ''You have access to these tools:'',
      ''- read(path): Read a file'',
      ''- write(path, content): Write/create a file'',
      ''- edit(path, old_text, new_text): Replace text in a file'',
      ''- bash(command): Run bash commands (use for git, npm, etc)'',
      ''- glob(pattern): Find files matching a pattern'',
      [],
      (if claudeMd \<noteq> [] then
         [newline] @ ''## Project Instructions (CLAUDE.md)'' @ [newline] @ claudeMd @ [newline]
       else []),
      [],
      ''## Important Guidelines'',
      ''- ALWAYS read CLAUDE.md first if it exists'',
      ''- Follow ALL project conventions from CLAUDE.md'',
      ''- Assume environment variables are always available'',
      ''- Write production-ready, fully functional code'',
      ''- Match existing code style and patterns'',
      ''- Make focused, minimal changes'',
      ''- For UI: follow existing styling approach, ensure responsive design, add proper loading/error states'',
      ''- Subscribe.dev: ONLY use if explicitly mentioned in request (phrases: '' @ [CHR 0x22] @
        ''with subscribe.dev'' @ [CHR 0x22] @ '', '' @ [CHR 0x22] @ ''using subscribe.dev'' @
        [CHR 0x22] @ '', etc)'',
      [],
      ''You MUST use the provided tools to make changes. Do not just describe what to do - actually use the tools to implement the feature.'']"

text \<open>\<^verbatim>\<open>process.env.X || 'unknown'\<close>.\<close>

definition or_unknown :: "string option \<Rightarrow> string" where
  "or_unknown v = (if or_empty v = [] then ''unknown'' else or_empty v)"

definition userPrompt :: "env \<Rightarrow> string \<Rightarrow> string" where
  "userPrompt e feature = join [newline]
     [''Implement this feature: '' @ feature,
      [],
      ''Repository: '' @ or_unknown (getenv e ''GITHUB_REPOSITORY''),
      ''Branch: '' @ or_unknown (getenv e ''BRANCH_NAME''),
      [],
      ''Steps:'',
      ''1. Read CLAUDE.md if you haven'' @ [CHR 0x27] @ ''t already (use read tool)'',
      ''2. Use glob/read to understand the codebase structure'',
      ''3. Make the necessary changes using write/edit tools'',
      ''4. Update package.json if adding dependencies (use edit tool)'',
      ''5. Use bash tool for npm install if needed'',
      [],
      ''Start implementing now using the tools.'']"

text \<open>
  How the process ends: \<^verbatim>\<open>implementFeature\<close> returns a code, or
  \<^verbatim>\<open>process.exit\<close> is called inside it, or its promise is rejected with an error
  thrown from the \<^verbatim>\<open>catch\<close> block (the caller then exits with 1).
\<close>

datatype outcome = Returned nat | ProcessExit nat | Unhandled exn

definition summary_path :: string where
  "summary_path = ''claude-error-summary.txt''"

definition snapshot_path :: string where
  "snapshot_path = ''claude-execution.log.json''"

text \<open>The outer \<^verbatim>\<open>catch (error)\<close> block.\<close>

definition fatal :: "env \<Rightarrow> exn \<Rightarrow> state \<Rightarrow> outcome \<times> state" where
  "fatal e err s =
     (let s1 = log e LError (''Fatal error: '' @ message err) (Some [(''stack'', MText (stack e err))]) s;
          errorLogs = filter (\<lambda>l. type l = LError) (logs s1);
          errorSummary = join [newline] (map content errorLogs)
      in case writeFileSync e summary_path errorSummary (fs s1) of
           Inl x \<Rightarrow> (Unhandled x, s1)
         | Inr f1 \<Rightarrow>
             (case writeFileSync e snapshot_path
                     (JSON_stringify_snapshot e
                        \<lparr>snapshot_logs = logs s1, totalIterations = None,
                         error_message = Some (message err)\<rparr>) f1 of
                Inl x \<Rightarrow> (Unhandled x, s1\<lparr>fs := f1\<rparr>)
              | Inr f2 \<Rightarrow> (Returned 1, s1\<lparr>fs := f2\<rparr>)))"

definition implementFeature :: "env \<Rightarrow> state \<Rightarrow> outcome \<times> state" where
  "implementFeature e s =
     (let s1 = log e LSystem ''Starting feature implementation'' None s
      in case client_error e of
           Some err \<Rightarrow> fatal e err s1
         | None \<Rightarrow>
             (let FEATURE_REQUEST = or_empty (getenv e ''FEATURE_REQUEST'')
              in if FEATURE_REQUEST = [] then
                   (ProcessExit 1, log e LError ''No FEATURE_REQUEST provided'' None s1)
                 else
                   (let s2 = log e LSystem (''Feature request: '' @ FEATURE_REQUEST) None s1
                    in case tools_read e (JString ''CLAUDE.md'') s2 of
                         (claudeMd, s3) \<Rightarrow>
                           (let s4 = log e LSystem ''Found and read CLAUDE.md'' None s3
                            in case conversation_loop e (systemPrompt claudeMd) True 0
                                      [UserText (userPrompt e FEATURE_REQUEST)] s4 of
                                 (Inl err, s5) \<Rightarrow> fatal e err s5
                               | (Inr (iterationCount, messages), s5) \<Rightarrow>
                                   (let s6 = (if iterationCount \<ge> MAX_ITERATIONS
                                              then log e LSystem ''Reached maximum iterations'' None s5
                                              else s5);
                                        s7 = log e LSystem ''Feature implementation completed'' None s6
                                    in case writeFileSync e snapshot_path
                                              (JSON_stringify_snapshot e
                                                 \<lparr>snapshot_logs = logs s7,
                                                  totalIterations = Some iterationCount,
                                                  error_message = None\<rparr>) (fs s7) of
                                         Inl err \<Rightarrow> fatal e err s7
                                       | Inr f \<Rightarrow> (Returned 0, s7\<lparr>fs := f\<rparr>))))))"

section \<open>Notions used by the properties\<close>

text \<open>The correlation ids of the tool calls of a response, in order.\<close>

fun tool_use_ids :: "block list \<Rightarrow> string list" where
  "tool_use_ids [] = []"
| "tool_use_ids (ToolUseBlock ident name input # bs) = ident # tool_use_ids bs"
| "tool_use_ids (TextBlock t # bs) = tool_use_ids bs"
| "tool_use_ids (OtherBlock # bs) = tool_use_ids bs"

text \<open>
  A transcript has no unanswered tool call: each assistant turn carrying tool calls is
  followed at once by a tool-result turn whose ids are those of the calls, in order.
\<close>

fun answered :: "msg list \<Rightarrow> bool" where
  "answered [] = True"
| "answered (Assistant c # rest) =
     (if tool_use_ids c = [] then answered rest
      else (case rest of
              ToolResults rs # rest' \<Rightarrow> map fst rs = tool_use_ids c \<and> answered rest'
            | _ \<Rightarrow> False))"
| "answered (UserText t # rest) = answered rest"
| "answered (ToolResults rs # rest) = answered rest"

text \<open>The positions at which a text occurs in a string.\<close>

definition occurs_at :: "string \<Rightarrow> string \<Rightarrow> nat \<Rightarrow> bool" where
  "occurs_at s pat i = (i + length pat \<le> length s \<and> take (length pat) (drop i s) = pat)"



text \<open>What \<^verbatim>\<open>head -n\<close> lets through: the first \<open>n\<close> lines of its input.\<close>

fun head_lines :: "nat \<Rightarrow> string \<Rightarrow> string" where
  "head_lines 0 s = []"
| "head_lines (Suc n) s =
     (case dropWhile (\<lambda>c. c \<noteq> newline) s of
        [] \<Rightarrow> s
      | c # rest \<Rightarrow> takeWhile (\<lambda>c. c \<noteq> newline) s @ [newline] @ head_lines n rest)"

section \<open>Concrete environments\<close>

definition render_entry :: "LogEntry \<Rightarrow> string" where
  "render_entry l = ''{content:'' @ content l @ ''}''"

definition render_snapshot :: "snapshot \<Rightarrow> string" where
  "render_snapshot x =
     ''{logs:'' @ concat (map render_entry (snapshot_logs x)) @
     (case totalIterations x of None \<Rightarrow> [] | Some n \<Rightarrow> '',totalIterations:'' @ show_nat n) @
     (case error_message x of None \<Rightarrow> [] | Some m \<Rightarrow> '',error:'' @ m) @ ''}''"

text \<open>An environment whose completion endpoint is unreachable.\<close>

definition env0 :: env where
  "env0 = \<lparr>now = (\<lambda>n. ''t'' @ show_nat n),
           JSON_stringify = render_entry,
           JSON_stringify_snapshot = render_snapshot,
           stack = error_text,
           type_error = (\<lambda>site. Exn ''TypeError'' site),
           mkdir_error = (\<lambda>p. None),
           write_error = (\<lambda>p. None),
           exec = (\<lambda>c b f. (Resolved [] [], f)),
           client_error = None,
           getenv = (\<lambda>k. if k = ''FEATURE_REQUEST'' then Some ''clock'' else None),
           create = (\<lambda>n sys ms. Inl (Exn ''Error'' ''Connection error.''))\<rparr>"

text \<open>An endpoint that answers the first request with a final text.\<close>

definition env_done :: env where
  "env_done = env0\<lparr>create :=
     (\<lambda>n sys ms. Inr \<lparr>content_blocks = [TextBlock ''Done.''], stop_reason = ''end_turn''\<rparr>)\<rparr>"


text \<open>The same as \<open>env0\<close>, with no room left to write the error summary.\<close>

definition env_full :: env where
  "env_full = env0\<lparr>write_error :=
     (\<lambda>p. if p = ''claude-error-summary.txt''
          then Some (Exn ''Error'' ''ENOSPC: no space left on device'') else None)\<rparr>"

text \<open>
  An endpoint that first asks for a failing shell command and an unknown tool, then
  stops; the command \<^verbatim>\<open>false\<close> exits with status 1.
\<close>

definition env_tools :: env where
  "env_tools = env0\<lparr>
     exec := (\<lambda>c b f. if c = ''false''
                then (Rejected (Exn ''Error'' ''Command failed: false'') (Some []) (Some []), f)
                else (Resolved [] [], f)),
     create := (\<lambda>n sys ms.
        if n = 1 then
          Inr \<lparr>content_blocks = [ToolUseBlock ''toolu_1'' ''bash'' [(''command'', ''false'')],
                                 ToolUseBlock ''toolu_2'' ''search'' [(''query'', ''clock'')]],
               stop_reason = ''tool_use''\<rparr>
        else Inr \<lparr>content_blocks = [TextBlock ''Done.''], stop_reason = ''end_turn''\<rparr>)\<rparr>"

text \<open>
  A pattern that closes the quote of the \<^verbatim>\<open>find\<close> command line, and what the
  shell prints for the resulting command: the lines of \<^verbatim>\<open>seq 101\<close>, which are
  not piped through \<^verbatim>\<open>head\<close>, then the line of the final \<^verbatim>\<open>echo\<close>.
\<close>

definition quote_pattern :: string where
  "quote_pattern = ''x'' @ [CHR 0x27] @ ''; seq 101; echo '' @ [CHR 0x27]"

definition seq_output :: "nat \<Rightarrow> string" where
  "seq_output n = concat (map (\<lambda>k. show_nat k @ [newline]) [1..<Suc n])"

definition env_shell :: env where
  "env_shell = env0\<lparr>
     exec := (\<lambda>c b f. if c = find_command quote_pattern
                then (Resolved (seq_output 101 @ '' -type f'' @ [newline]) [], f)
                else (Resolved [] [], f))\<rparr>"

definition state0 :: state where
  "state0 = \<lparr>logs = [],
             fs = (\<lambda>p. if p = ''a.txt'' then Inr ''hello world''
                        else Inl (Exn ''Error'' (''ENOENT: no such file or directory, open '' @ p))),
             requests = []\<rparr>"


section \<open>Lemmas on logging and on string search\<close>

lemma logs_log [simp]:
  "logs (log e t c m s) =
     logs s @ [\<lparr>timestamp = now e (length (logs s)), type = t, content = c, metadata = m\<rparr>]"
  by (simp add: log_def Let_def)

lemma requests_log [simp]: "requests (log e t c m s) = requests s"
  by (simp add: log_def Let_def)

lemma fs_log_other [simp]: "p \<noteq> log_path \<Longrightarrow> fs (log e t c m s) p = fs s p"
  by (simp add: log_def Let_def appendFileSync_def)


lemma index_of_least: "index_of s pat = Some i \<Longrightarrow> j < i \<Longrightarrow> \<not> occurs_at s pat j"
proof (induction s arbitrary: i j)
  case Nil
  then show ?case by (auto split: if_splits)
next
  case (Cons c cs)
  show ?case
  proof (cases "take (length pat) (c # cs) = pat")
    case True
    with Cons.prems show ?thesis by simp
  next
    case False
    with Cons.prems obtain k where k: "index_of cs pat = Some k" "i = Suc k" by auto
    show ?thesis
    proof (cases j)
      case 0
      then show ?thesis using False by (simp add: occurs_at_def)
    next
      case (Suc j')
      with Cons.prems(2) k(2) have "j' < k" by simp
      from Cons.IH[OF k(1) this] show ?thesis using Suc by (simp add: occurs_at_def)
    qed
  qed
qed







section \<open>The file tools\<close>














section \<open>Invariant of the conversation loop\<close>

lemma requests_tools_read [simp]: "requests (snd (tools_read e p s)) = requests s"
  by (simp add: tools_read_def read_catch_def Let_def split: sum.splits)

lemma fs_tools_read: "p \<noteq> log_path \<Longrightarrow> fs (snd (tools_read e q s)) p = fs s p"
  by (simp add: tools_read_def read_catch_def Let_def split: sum.splits)

lemma requests_tools_write [simp]: "requests (snd (tools_write e p c s)) = requests s"
  by (simp add: tools_write_def write_catch_def writeFileSync_def Let_def
        split: sum.splits jsval.splits option.splits)

lemma requests_tools_edit [simp]: "requests (snd (tools_edit e p old new s)) = requests s"
  by (simp add: tools_edit_def edit_catch_def writeFileSync_def Let_def
        split: sum.splits option.splits)

lemma requests_tools_bash [simp]: "requests (snd (tools_bash e c s)) = requests s"
  by (simp add: tools_bash_def bash_catch_def Let_def
        split: jsval.splits prod.splits exec_result.splits)

lemma requests_tools_glob [simp]: "requests (snd (tools_glob e p s)) = requests s"
  by (simp add: tools_glob_def Let_def split: prod.splits exec_result.splits)

lemma requests_dispatch [simp]: "requests (snd (dispatch e name input s)) = requests s"
  by (simp add: dispatch_def)

lemma requests_dispatch_eq: "dispatch e name input s = (r, s') \<Longrightarrow> requests s' = requests s"
  by (metis requests_dispatch snd_conv)

lemma process_block_facts:
  "process_block e b (h, rs, s) = (h', rs', s') \<Longrightarrow>
     requests s' = requests s \<and> map fst rs' = map fst rs @ tool_use_ids [b]
     \<and> h' = (h \<or> tool_use_ids [b] \<noteq> [])"
proof (cases b)
  case (ToolUseBlock ident name input)
  assume "process_block e b (h, rs, s) = (h', rs', s')"
  with ToolUseBlock show ?thesis
    by (auto simp: Let_def split: prod.splits dest: requests_dispatch_eq)
qed auto

lemma tool_use_ids_append: "tool_use_ids (as @ bs) = tool_use_ids as @ tool_use_ids bs"
  by (induction as rule: tool_use_ids.induct) auto

lemma process_content_facts:
  "process_content e bs (h, rs, s) = (h', rs', s') \<Longrightarrow>
     requests s' = requests s \<and> map fst rs' = map fst rs @ tool_use_ids bs
     \<and> h' = (h \<or> tool_use_ids bs \<noteq> [])"
proof (induction bs arbitrary: h rs s)
  case Nil
  then show ?case by simp
next
  case (Cons b bs)
  obtain h1 rs1 s1 where b: "process_block e b (h, rs, s) = (h1, rs1, s1)"
    by (cases "process_block e b (h, rs, s)") auto
  with Cons.prems have "process_content e bs (h1, rs1, s1) = (h', rs', s')" by simp
  from Cons.IH [OF this] process_block_facts [OF b] show ?case
    using tool_use_ids_append [of "[b]" bs] by auto
qed

lemma answered_append: "answered ms \<Longrightarrow> answered ms' \<Longrightarrow> answered (ms @ ms')"
  by (induction ms rule: answered.induct) (auto split: list.splits msg.splits if_splits)

lemma answered_step:
  "answered ms \<Longrightarrow> map fst rs = tool_use_ids c \<Longrightarrow> answered (ms @ [Assistant c, ToolResults rs])"
  by (rule answered_append) simp_all

lemma loop_stop:
  "\<not> (c \<and> i < MAX_ITERATIONS) \<Longrightarrow> conversation_loop e sys c i ms s = (Inr (i, ms), s)"
  by (subst conversation_loop.simps) auto

lemma loop_fail:
  assumes "i < MAX_ITERATIONS" and "create e (Suc i) sys ms = Inl err"
  shows "conversation_loop e sys True i ms s =
    (Inl err, (log e LSystem (''Iteration '' @ show_nat (Suc i) @ ''/'' @ show_nat MAX_ITERATIONS) None s)
       \<lparr>requests := requests s @ [(Suc i, ms)]\<rparr>)"
  using assms by (simp add: conversation_loop.simps [of e sys True i ms s] Let_def)

lemma loop_step:
  assumes "i < MAX_ITERATIONS" and "create e (Suc i) sys ms = Inr resp"
    and "process_content e (content_blocks resp)
           (False, [], log e LMessage (''Claude response (stop_reason: '' @ stop_reason resp @ '')'') None
              ((log e LSystem (''Iteration '' @ show_nat (Suc i) @ ''/'' @ show_nat MAX_ITERATIONS) None s)
                 \<lparr>requests := requests s @ [(Suc i, ms)]\<rparr>)) = (h, rs, s4)"
  shows "conversation_loop e sys True i ms s =
    (if stop_reason resp = ''end_turn'' \<or> \<not> h
     then (Inr (Suc i, ms), log e LSystem ''Conversation ended'' None s4)
     else conversation_loop e sys True (Suc i) (ms @ [Assistant (content_blocks resp), ToolResults rs]) s4)"
    and "requests s4 = requests s @ [(Suc i, ms)]"
    and "map fst rs = tool_use_ids (content_blocks resp)"
    and "h = (tool_use_ids (content_blocks resp) \<noteq> [])"
proof -
  from process_content_facts [OF assms(3)]
  show r: "requests s4 = requests s @ [(Suc i, ms)]"
    and m: "map fst rs = tool_use_ids (content_blocks resp)"
    and h: "h = (tool_use_ids (content_blocks resp) \<noteq> [])"
    by simp_all
  from m h have "h \<Longrightarrow> rs \<noteq> []" by auto
  then show "conversation_loop e sys True i ms s =
    (if stop_reason resp = ''end_turn'' \<or> \<not> h
     then (Inr (Suc i, ms), log e LSystem ''Conversation ended'' None s4)
     else conversation_loop e sys True (Suc i) (ms @ [Assistant (content_blocks resp), ToolResults rs]) s4)"
    using assms
    by (auto simp: conversation_loop.simps [of e sys True i ms s] loop_stop Let_def)
qed

lemma loop_invariant:
  assumes "answered ms"
  shows "\<exists>R. requests (snd (conversation_loop e sys True i ms s)) = requests s @ R
    \<and> map fst R = [Suc i..<Suc (i + length R)]
    \<and> i + length R \<le> max i MAX_ITERATIONS
    \<and> list_all (\<lambda>(n, t). answered t) R
    \<and> (case fst (conversation_loop e sys True i ms s) of
         Inr (n, ms') \<Rightarrow> n = i + length R \<and> answered ms'
       | Inl err \<Rightarrow> True)"
  using assms
proof (induction "MAX_ITERATIONS - i" arbitrary: i ms s)
  case 0
  then have "conversation_loop e sys True i ms s = (Inr (i, ms), s)"
    by (simp add: loop_stop)
  with "0.prems" show ?case by simp
next
  case (Suc k)
  then have lt: "i < MAX_ITERATIONS" by simp
  let ?s2 = "(log e LSystem (''Iteration '' @ show_nat (Suc i) @ ''/'' @ show_nat MAX_ITERATIONS) None s)
       \<lparr>requests := requests s @ [(Suc i, ms)]\<rparr>"
  show ?case
  proof (cases "create e (Suc i) sys ms")
    case (Inl err)
    from loop_fail [OF lt Inl] Suc.prems lt show ?thesis
      by (intro exI [of _ "[(Suc i, ms)]"]) simp
  next
    case (Inr resp)
    obtain h rs s4 where pc: "process_content e (content_blocks resp)
           (False, [], log e LMessage (''Claude response (stop_reason: '' @ stop_reason resp @ '')'') None ?s2)
           = (h, rs, s4)"
      using prod_cases3 by blast
    note st = loop_step [OF lt Inr pc]
    show ?thesis
    proof (cases "stop_reason resp = ''end_turn'' \<or> \<not> h")
      case True
      with st(1,2) Suc.prems lt show ?thesis
        by (intro exI [of _ "[(Suc i, ms)]"]) simp
    next
      case False
      let ?ms = "ms @ [Assistant (content_blocks resp), ToolResults rs]"
      from False st(1) have eq: "conversation_loop e sys True i ms s =
          conversation_loop e sys True (Suc i) ?ms s4" by simp
      have a: "answered ?ms" using Suc.prems st(3) by (rule answered_step)
      from Suc.hyps(2) have k: "k = MAX_ITERATIONS - Suc i" by simp
      from Suc.hyps(1) [OF k a, of s4] obtain R where
        R: "requests (snd (conversation_loop e sys True (Suc i) ?ms s4)) = requests s4 @ R"
          "map fst R = [Suc (Suc i)..<Suc (Suc i + length R)]"
          "Suc i + length R \<le> max (Suc i) MAX_ITERATIONS"
          "list_all (\<lambda>(n, t). answered t) R"
          "case fst (conversation_loop e sys True (Suc i) ?ms s4) of
             Inr (n, ms') \<Rightarrow> n = Suc i + length R \<and> answered ms'
           | Inl err \<Rightarrow> True"
        by blast
      have "map fst ((Suc i, ms) # R) = [Suc i..<Suc (i + length ((Suc i, ms) # R))]"
        using R(2) by (simp add: upt_conv_Cons del: upt_Suc)
      moreover have "i + length ((Suc i, ms) # R) \<le> max i MAX_ITERATIONS"
        using R(3) lt by simp
      moreover have "list_all (\<lambda>(n, t). answered t) ((Suc i, ms) # R)"
        using R(4) Suc.prems by simp
      moreover have "requests (snd (conversation_loop e sys True i ms s)) = requests s @ ((Suc i, ms) # R)"
        using R(1) st(2) eq by simp
      moreover have "case fst (conversation_loop e sys True i ms s) of
             Inr (n, ms') \<Rightarrow> n = i + length ((Suc i, ms) # R) \<and> answered ms'
           | Inl err \<Rightarrow> True"
        using R(5) eq by (simp split: sum.splits prod.splits)
      ultimately show ?thesis by blast
    qed
  qed
qed

section \<open>The whole run\<close>

lemma distinct_paths [simp]:
  "summary_path \<noteq> snapshot_path" "snapshot_path \<noteq> summary_path"
  "summary_path \<noteq> log_path" "snapshot_path \<noteq> log_path"
  by (simp_all add: summary_path_def snapshot_path_def log_path_def)

lemma requests_fatal [simp]: "requests (snd (fatal e err s)) = requests s"
  by (simp add: fatal_def writeFileSync_def Let_def split: option.splits)

lemma logs_fatal:
  "logs (snd (fatal e err s)) = logs s @
     [\<lparr>timestamp = now e (length (logs s)), type = LError, content = ''Fatal error: '' @ message err,
       metadata = Some [(''stack'', MText (stack e err))]\<rparr>]"
  by (simp add: fatal_def writeFileSync_def Let_def split: option.splits)

lemma fatal_not_zero: "fst (fatal e err s) \<noteq> Returned 0"
  by (simp add: fatal_def writeFileSync_def Let_def split: option.splits)

lemma fatal_artifacts:
  assumes "fst (fatal e err s) = Returned 1"
  shows "fs (snd (fatal e err s)) summary_path =
           Inr (join [newline] (map content (filter (\<lambda>l. type l = LError) (logs (snd (fatal e err s))))))"
    and "fs (snd (fatal e err s)) snapshot_path =
           Inr (JSON_stringify_snapshot e
                  \<lparr>snapshot_logs = logs (snd (fatal e err s)), totalIterations = None,
                   error_message = Some (message err)\<rparr>)"
  using assms
  by (simp_all add: fatal_def writeFileSync_def Let_def split: option.splits)

text \<open>The run, seen from the loop: either it never reaches the loop, or the loop's result decides it.\<close>

lemma implementFeature_cases:
  obtains (early) out s' where "implementFeature e s = (out, s')" "requests s' = requests s"
      "out \<noteq> Returned 0" "out = Returned 1 \<longrightarrow> (\<exists>err s0. implementFeature e s = fatal e err s0)"
  | (looped) sys ms s4 where "requests s4 = requests s" "answered ms"
      "implementFeature e s =
         (case conversation_loop e sys True 0 ms s4 of
            (Inl err, s5) \<Rightarrow> fatal e err s5
          | (Inr (iterationCount, messages), s5) \<Rightarrow>
              (let s6 = (if iterationCount \<ge> MAX_ITERATIONS
                         then log e LSystem ''Reached maximum iterations'' None s5 else s5);
                   s7 = log e LSystem ''Feature implementation completed'' None s6
               in case writeFileSync e snapshot_path
                         (JSON_stringify_snapshot e
                            \<lparr>snapshot_logs = logs s7, totalIterations = Some iterationCount,
                             error_message = None\<rparr>) (fs s7) of
                    Inl err \<Rightarrow> fatal e err s7
                  | Inr f \<Rightarrow> (Returned 0, s7\<lparr>fs := f\<rparr>)))"
proof (cases "client_error e")
  case (Some err)
  then have eq: "implementFeature e s = fatal e err (log e LSystem ''Starting feature implementation'' None s)"
    by (simp add: implementFeature_def Let_def)
  show ?thesis
  proof (rule early)
    show "implementFeature e s = (fst (fatal e err (log e LSystem ''Starting feature implementation'' None s)),
        snd (fatal e err (log e LSystem ''Starting feature implementation'' None s)))"
      using eq by simp
  qed (use eq fatal_not_zero in auto)
next
  case None
  show ?thesis
  proof (cases "or_empty (getenv e ''FEATURE_REQUEST'') = []")
    case True
    with None have "implementFeature e s =
        (ProcessExit 1, log e LError ''No FEATURE_REQUEST provided'' None
           (log e LSystem ''Starting feature implementation'' None s))"
      by (simp add: implementFeature_def Let_def)
    then show ?thesis
      by (intro early [of "ProcessExit 1" "log e LError ''No FEATURE_REQUEST provided'' None
           (log e LSystem ''Starting feature implementation'' None s)"]) simp_all
  next
    case False
    let ?s2 = "log e LSystem (''Feature request: '' @ or_empty (getenv e ''FEATURE_REQUEST'')) None
                 (log e LSystem ''Starting feature implementation'' None s)"
    obtain claudeMd s3 where rd: "tools_read e (JString ''CLAUDE.md'') ?s2 = (claudeMd, s3)"
      by (cases "tools_read e (JString ''CLAUDE.md'') ?s2") auto
    then have r3: "requests s3 = requests s"
      using requests_tools_read [of e "JString ''CLAUDE.md''" ?s2] by simp
    show ?thesis
    proof (rule looped)
      show "requests (log e LSystem ''Found and read CLAUDE.md'' None s3) = requests s"
        using r3 by simp
      show "answered [UserText (userPrompt e (or_empty (getenv e ''FEATURE_REQUEST'')))]" by simp
      show "implementFeature e s =
         (case conversation_loop e (systemPrompt claudeMd) True 0
                 [UserText (userPrompt e (or_empty (getenv e ''FEATURE_REQUEST'')))]
                 (log e LSystem ''Found and read CLAUDE.md'' None s3) of
            (Inl err, s5) \<Rightarrow> fatal e err s5
          | (Inr (iterationCount, messages), s5) \<Rightarrow>
              (let s6 = (if iterationCount \<ge> MAX_ITERATIONS
                         then log e LSystem ''Reached maximum iterations'' None s5 else s5);
                   s7 = log e LSystem ''Feature implementation completed'' None s6
               in case writeFileSync e snapshot_path
                         (JSON_stringify_snapshot e
                            \<lparr>snapshot_logs = logs s7, totalIterations = Some iterationCount,
                             error_message = None\<rparr>) (fs s7) of
                    Inl err \<Rightarrow> fatal e err s7
                  | Inr f \<Rightarrow> (Returned 0, s7\<lparr>fs := f\<rparr>)))"
        using None False rd by (simp add: implementFeature_def Let_def)
    qed
  qed
qed

lemma loop_continues:
  assumes "i < MAX_ITERATIONS" and "create e (Suc i) sys ms = Inr resp"
    and "stop_reason resp \<noteq> ''end_turn''" and "tool_use_ids (content_blocks resp) \<noteq> []"
  shows "\<exists>rs s4. map fst rs = tool_use_ids (content_blocks resp)
    \<and> conversation_loop e sys True i ms s =
        conversation_loop e sys True (Suc i) (ms @ [Assistant (content_blocks resp), ToolResults rs]) s4"
proof -
  let ?s2 = "(log e LSystem (''Iteration '' @ show_nat (Suc i) @ ''/'' @ show_nat MAX_ITERATIONS) None s)
       \<lparr>requests := requests s @ [(Suc i, ms)]\<rparr>"
  obtain h rs s4 where pc: "process_content e (content_blocks resp)
         (False, [], log e LMessage (''Claude response (stop_reason: '' @ stop_reason resp @ '')'') None ?s2)
         = (h, rs, s4)"
    using prod_cases3 by blast
  note st = loop_step [OF assms(1,2) pc]
  from st(4) assms(4) have h by simp
  with st(1) assms(3) have "conversation_loop e sys True i ms s =
        conversation_loop e sys True (Suc i) (ms @ [Assistant (content_blocks resp), ToolResults rs]) s4"
    by simp
  with st(3) show ?thesis by blast
qed

lemma run_requests:
  assumes "requests s = []"
  shows "\<exists>k\<le>MAX_ITERATIONS. map fst (requests (snd (implementFeature e s))) = [1..<Suc k]
    \<and> list_all (\<lambda>(n, t). answered t) (requests (snd (implementFeature e s)))
    \<and> (fst (implementFeature e s) = Returned 0 \<longrightarrow>
         fs (snd (implementFeature e s)) snapshot_path =
           Inr (JSON_stringify_snapshot e
                  \<lparr>snapshot_logs = logs (snd (implementFeature e s)), totalIterations = Some k,
                   error_message = None\<rparr>))"
proof (cases rule: implementFeature_cases [of e s])
  case (early out s')
  with assms show ?thesis by (intro exI [of _ 0]) simp
next
  case (looped sys ms s4)
  from loop_invariant [OF looped(2), of e sys 0 s4] obtain R where
    R0: "requests (snd (conversation_loop e sys True 0 ms s4)) = requests s4 @ R"
      "map fst R = [Suc 0..<Suc (0 + length R)]" "0 + length R \<le> max 0 MAX_ITERATIONS"
      "list_all (\<lambda>(n, t). answered t) R"
      "case fst (conversation_loop e sys True 0 ms s4) of
         Inr (n, ms') \<Rightarrow> n = 0 + length R \<and> answered ms' | Inl err \<Rightarrow> True"
    by blast
  have R: "requests (snd (conversation_loop e sys True 0 ms s4)) = R"
      "map fst R = [1..<Suc (length R)]" "length R \<le> MAX_ITERATIONS"
      "list_all (\<lambda>(n, t). answered t) R"
      "case fst (conversation_loop e sys True 0 ms s4) of
         Inr (n, ms') \<Rightarrow> n = length R \<and> answered ms' | Inl err \<Rightarrow> True"
    using R0 looped(1) assms by (simp_all del: upt_Suc split: sum.splits prod.splits)
  obtain r s5 where l: "conversation_loop e sys True 0 ms s4 = (r, s5)"
    by (cases "conversation_loop e sys True 0 ms s4") auto
  show ?thesis
  proof (cases r)
    case (Inl err)
    with l looped(3) have "implementFeature e s = fatal e err s5" by simp
    with R l show ?thesis
      using fatal_not_zero [of e err s5] by (intro exI [of _ "length R"]) simp
  next
    case (Inr p)
    with R(5) l obtain ms' where p: "p = (length R, ms')" by (cases p) auto
    let ?s6 = "if length R \<ge> MAX_ITERATIONS
               then log e LSystem ''Reached maximum iterations'' None s5 else s5"
    let ?s7 = "log e LSystem ''Feature implementation completed'' None ?s6"
    let ?snap = "JSON_stringify_snapshot e
        \<lparr>snapshot_logs = logs ?s7, totalIterations = Some (length R), error_message = None\<rparr>"
    have r7: "requests ?s7 = R" using R(1) l by simp
    show ?thesis
    proof (cases "write_error e snapshot_path")
      case None
      with l Inr p looped(3) have "implementFeature e s =
          (Returned 0, ?s7\<lparr>fs := (fs ?s7)(snapshot_path := Inr ?snap)\<rparr>)"
        by (simp add: writeFileSync_def Let_def)
      with R r7 show ?thesis
        by (intro exI [of _ "length R"]) simp
    next
      case (Some err)
      with l Inr p looped(3) have "implementFeature e s = fatal e err ?s7"
        by (simp add: writeFileSync_def Let_def)
      with R r7 show ?thesis
        using fatal_not_zero [of e err ?s7] by (intro exI [of _ "length R"]) simp
    qed
  qed
qed

lemma run_failed:
  assumes "fst (implementFeature e s) = Returned 1"
  shows "\<exists>err s0. implementFeature e s = fatal e err s0"
proof (cases rule: implementFeature_cases [of e s])
  case (early out s')
  with assms show ?thesis by simp
next
  case (looped sys ms s4)
  obtain r s5 where l: "conversation_loop e sys True 0 ms s4 = (r, s5)"
    by (cases "conversation_loop e sys True 0 ms s4") auto
  show ?thesis
  proof (cases r)
    case (Inl err)
    with l looped(3) show ?thesis by auto
  next
    case (Inr p)
    obtain n ms' where p: "p = (n, ms')" by (cases p) auto
    from assms l Inr p looped(3) show ?thesis
      by (auto simp: writeFileSync_def Let_def split: option.splits)
  qed
qed

section \<open>Dispatch, and how a run ends\<close>






lemma fatal_returns:
  "write_error e summary_path = None \<Longrightarrow> write_error e snapshot_path = None \<Longrightarrow>
     fst (fatal e err s) = Returned 1"
  by (simp add: fatal_def writeFileSync_def Let_def)

lemma fatal_unhandled:
  "write_error e summary_path = Some x \<Longrightarrow>
     fst (fatal e err s) = Unhandled x
     \<and> (\<forall>p. p \<noteq> log_path \<longrightarrow> fs (snd (fatal e err s)) p = fs s p)"
  by (simp add: fatal_def writeFileSync_def Let_def)

lemma MAX_ITERATIONS_pos [simp]: "0 < MAX_ITERATIONS"
  by (simp add: MAX_ITERATIONS_def)

lemma run_first_request_fails:
  assumes "client_error e = None" and "or_empty (getenv e ''FEATURE_REQUEST'') \<noteq> []"
    and "\<And>sys ms. create e (Suc 0) sys ms = Inl err"
  shows "\<exists>s5. implementFeature e s = fatal e err s5
    \<and> map fst (requests s5) = map fst (requests s) @ [1]
    \<and> (\<forall>p. p \<noteq> log_path \<longrightarrow> fs s5 p = fs s p)"
proof -
  let ?s2 = "log e LSystem (''Feature request: '' @ or_empty (getenv e ''FEATURE_REQUEST'')) None
               (log e LSystem ''Starting feature implementation'' None s)"
  obtain claudeMd s3 where rd: "tools_read e (JString ''CLAUDE.md'') ?s2 = (claudeMd, s3)"
    by (cases "tools_read e (JString ''CLAUDE.md'') ?s2") auto
  then have r3: "requests s3 = requests s"
    using requests_tools_read [of e "JString ''CLAUDE.md''" ?s2] by simp
  have f3: "\<forall>p. p \<noteq> log_path \<longrightarrow> fs s3 p = fs s p"
    using rd fs_tools_read [of _ e "JString ''CLAUDE.md''" ?s2] by simp
  let ?ms = "[UserText (userPrompt e (or_empty (getenv e ''FEATURE_REQUEST'')))]"
  let ?s4 = "log e LSystem ''Found and read CLAUDE.md'' None s3"
  note lf = loop_fail [OF MAX_ITERATIONS_pos assms(3), of "systemPrompt claudeMd" ?ms ?s4]
  have "implementFeature e s = fatal e err (snd (conversation_loop e (systemPrompt claudeMd) True 0 ?ms ?s4))"
    using assms(1,2) rd lf by (simp add: implementFeature_def Let_def)
  moreover have "map fst (requests (snd (conversation_loop e (systemPrompt claudeMd) True 0 ?ms ?s4)))
      = map fst (requests s) @ [1]"
    using lf r3 by simp
  moreover have "\<forall>p. p \<noteq> log_path \<longrightarrow>
      fs (snd (conversation_loop e (systemPrompt claudeMd) True 0 ?ms ?s4)) p = fs s p"
    using lf f3 by simp
  ultimately show ?thesis by blast
qed

lemma run_stops_first:
  assumes "client_error e = None" and "or_empty (getenv e ''FEATURE_REQUEST'') \<noteq> []"
    and "\<And>sys ms. create e (Suc 0) sys ms = Inr resp" and "stop_reason resp = ''end_turn''"
    and "write_error e snapshot_path = None"
  shows "fst (implementFeature e s) = Returned 0"
proof -
  let ?s2 = "log e LSystem (''Feature request: '' @ or_empty (getenv e ''FEATURE_REQUEST'')) None
               (log e LSystem ''Starting feature implementation'' None s)"
  obtain claudeMd s3 where rd: "tools_read e (JString ''CLAUDE.md'') ?s2 = (claudeMd, s3)"
    by (cases "tools_read e (JString ''CLAUDE.md'') ?s2") auto
  let ?ms = "[UserText (userPrompt e (or_empty (getenv e ''FEATURE_REQUEST'')))]"
  let ?s4 = "log e LSystem ''Found and read CLAUDE.md'' None s3"
  let ?s5 = "(log e LSystem (''Iteration '' @ show_nat (Suc 0) @ ''/'' @ show_nat MAX_ITERATIONS) None ?s4)
       \<lparr>requests := requests ?s4 @ [(Suc 0, ?ms)]\<rparr>"
  obtain h rs s6 where pc: "process_content e (content_blocks resp)
         (False, [], log e LMessage (''Claude response (stop_reason: '' @ stop_reason resp @ '')'') None ?s5)
         = (h, rs, s6)"
    using prod_cases3 by blast
  from loop_step(1) [OF MAX_ITERATIONS_pos assms(3) pc, of "systemPrompt claudeMd"] assms(4)
  have "conversation_loop e (systemPrompt claudeMd) True 0 ?ms ?s4 =
      (Inr (Suc 0, ?ms), log e LSystem ''Conversation ended'' None s6)"
    by simp
  with assms(1,2,5) rd show ?thesis
    by (simp add: implementFeature_def writeFileSync_def Let_def)
qed

section \<open>The orchestration loop: the claims\<close>

text \<open>
  Claim C1. In a run, the completion requests carry the iteration counts 1, 2, ..., k in
  this order, with k at most \<open>MAX_ITERATIONS\<close> = 20: the count only grows, and no
  request is issued beyond the ceiling, whatever the endpoint answers. When the run returns 0,
  the snapshot it wrote records exactly this k as \<^verbatim>\<open>totalIterations\<close>.
\<close>

theorem iteration_ceiling:
  assumes "requests s = []"
  shows "\<exists>k\<le>MAX_ITERATIONS. k \<le> 20
    \<and> map fst (requests (snd (implementFeature e s))) = [1..<Suc k]
    \<and> (fst (implementFeature e s) = Returned 0 \<longrightarrow>
         fs (snd (implementFeature e s)) snapshot_path =
           Inr (JSON_stringify_snapshot e
                  \<lparr>snapshot_logs = logs (snd (implementFeature e s)), totalIterations = Some k,
                   error_message = None\<rparr>))"
proof -
  from run_requests [OF assms, of e] obtain k where k: "k \<le> MAX_ITERATIONS"
    "map fst (requests (snd (implementFeature e s))) = [1..<Suc k]"
    "fst (implementFeature e s) = Returned 0 \<longrightarrow>
         fs (snd (implementFeature e s)) snapshot_path =
           Inr (JSON_stringify_snapshot e
                  \<lparr>snapshot_logs = logs (snd (implementFeature e s)), totalIterations = Some k,
                   error_message = None\<rparr>)"
    by blast
  from k(1) have "k \<le> 20" by (simp add: MAX_ITERATIONS_def)
  with k show ?thesis by blast
qed

theorem iteration_ceiling_witness:
  "requests state0 = [] \<and> fst (implementFeature env_done state0) = Returned 0
   \<and> (\<exists>k\<le>MAX_ITERATIONS. k \<le> 20
        \<and> map fst (requests (snd (implementFeature env_done state0))) = [1..<Suc k]
        \<and> fs (snd (implementFeature env_done state0)) snapshot_path =
           Inr (JSON_stringify_snapshot env_done
                  \<lparr>snapshot_logs = logs (snd (implementFeature env_done state0)),
                   totalIterations = Some k, error_message = None\<rparr>))"
proof -
  have h: "requests state0 = []" by (simp add: state0_def)
  have z: "fst (implementFeature env_done state0) = Returned 0"
    by (rule run_stops_first [where resp = "\<lparr>content_blocks = [TextBlock ''Done.''], stop_reason = ''end_turn''\<rparr>"])
       (simp_all add: env_done_def env0_def)
  show ?thesis
    using h z iteration_ceiling [OF h, of env_done] by blast
qed

text \<open>
  Claim C2. The results of dispatching a response carry, in order, exactly the ids of its
  tool calls, one result for each call, a call of an unknown tool included. When the loop goes
  on after a response with tool calls, the transcript has grown by the assistant turn with
  the response and, right after it, the tool-result turn with these ids. Every transcript
  sent with a completion request of a run has no unanswered tool call.
\<close>

theorem tool_calls_answered:
  "map fst (fst (snd (process_content e bs (False, [], s)))) = tool_use_ids bs
   \<and> (i < MAX_ITERATIONS \<and> create e (Suc i) sys ms = Inr resp
        \<and> stop_reason resp \<noteq> ''end_turn'' \<and> tool_use_ids (content_blocks resp) \<noteq> [] \<longrightarrow>
       (\<exists>rs s4. map fst rs = tool_use_ids (content_blocks resp)
          \<and> conversation_loop e sys True i ms s =
              conversation_loop e sys True (Suc i)
                (ms @ [Assistant (content_blocks resp), ToolResults rs]) s4))
   \<and> (requests s = [] \<longrightarrow>
        list_all (\<lambda>(n, t). answered t) (requests (snd (implementFeature e s))))"
proof -
  obtain h rs s' where pc: "process_content e bs (False, [], s) = (h, rs, s')"
    using prod_cases3 by blast
  from process_content_facts [OF pc]
  have "map fst (fst (snd (process_content e bs (False, [], s)))) = tool_use_ids bs"
    using pc by simp
  then show ?thesis
    using loop_continues [of i e sys ms resp s] run_requests [of s e] by blast
qed

theorem tool_calls_answered_witness:
  "0 < MAX_ITERATIONS
   \<and> create env_tools (Suc 0) [] [] =
       Inr \<lparr>content_blocks = [ToolUseBlock ''toolu_1'' ''bash'' [(''command'', ''false'')],
                              ToolUseBlock ''toolu_2'' ''search'' [(''query'', ''clock'')]],
            stop_reason = ''tool_use''\<rparr>
   \<and> ''tool_use'' \<noteq> ''end_turn''
   \<and> tool_use_ids [ToolUseBlock ''toolu_1'' ''bash'' [(''command'', ''false'')],
                    ToolUseBlock ''toolu_2'' ''search'' [(''query'', ''clock'')]] = [''toolu_1'', ''toolu_2'']
   \<and> (\<exists>rs s4. map fst rs = [''toolu_1'', ''toolu_2'']
          \<and> conversation_loop env_tools [] True 0 [] state0 =
              conversation_loop env_tools [] True (Suc 0)
                ([] @ [Assistant [ToolUseBlock ''toolu_1'' ''bash'' [(''command'', ''false'')],
                                 ToolUseBlock ''toolu_2'' ''search'' [(''query'', ''clock'')]],
                       ToolResults rs]) s4)
   \<and> requests state0 = []
   \<and> list_all (\<lambda>(n, t). answered t) (requests (snd (implementFeature env_tools state0)))"
proof -
  let ?resp = "\<lparr>content_blocks = [ToolUseBlock ''toolu_1'' ''bash'' [(''command'', ''false'')],
                              ToolUseBlock ''toolu_2'' ''search'' [(''query'', ''clock'')]],
            stop_reason = ''tool_use''\<rparr>"
  have h1: "0 < MAX_ITERATIONS" by simp
  have h2: "create env_tools (Suc 0) [] [] = Inr ?resp" by (simp add: env_tools_def env0_def)
  have h3: "stop_reason ?resp \<noteq> ''end_turn''" by simp
  have h4: "tool_use_ids (content_blocks ?resp) = [''toolu_1'', ''toolu_2'']" by simp
  have h5: "requests state0 = []" by (simp add: state0_def)
  from tool_calls_answered [of env_tools "[]" state0 0 "[]" "[]" ?resp] h1 h2 h3 h4 h5
  have "(\<exists>rs s4. map fst rs = tool_use_ids (content_blocks ?resp)
          \<and> conversation_loop env_tools [] True 0 [] state0 =
              conversation_loop env_tools [] True (Suc 0)
                ([] @ [Assistant (content_blocks ?resp), ToolResults rs]) s4)
     \<and> list_all (\<lambda>(n, t). answered t) (requests (snd (implementFeature env_tools state0)))"
    by simp
  with h1 h2 h3 h4 h5 show ?thesis by simp
qed






section \<open>Fatal failure\<close>

text \<open>
  Claim C6, as amended. When a fatal failure is caught and the run returns 1, the
  error-summary file holds the contents of the error-kind log entries and of no other, one
  per line, and the snapshot file holds the serialised object with every log entry appended
  so far (the fatal-error entry last) and the error message. This object has no iteration
  count: the failed run writes \<^verbatim>\<open>{ logs, error }\<close>.
\<close>

theorem fatal_failure_artifacts:
  assumes "fst (implementFeature e s) = Returned 1"
  shows "fs (snd (implementFeature e s)) summary_path =
           Inr (join [newline]
                  (map content (filter (\<lambda>l. type l = LError) (logs (snd (implementFeature e s))))))
    \<and> (\<exists>msg. fs (snd (implementFeature e s)) snapshot_path =
           Inr (JSON_stringify_snapshot e
                  \<lparr>snapshot_logs = logs (snd (implementFeature e s)), totalIterations = None,
                   error_message = Some msg\<rparr>)
         \<and> content (last (logs (snd (implementFeature e s)))) = ''Fatal error: '' @ msg
         \<and> type (last (logs (snd (implementFeature e s)))) = LError)"
proof -
  from run_failed [OF assms] obtain err s0 where eq: "implementFeature e s = fatal e err s0"
    by blast
  with assms have r: "fst (fatal e err s0) = Returned 1" by simp
  from fatal_artifacts [OF r] logs_fatal [of e err s0] eq show ?thesis by simp
qed

theorem fatal_failure_artifacts_witness:
  "fst (implementFeature env0 state0) = Returned 1
   \<and> fs (snd (implementFeature env0 state0)) summary_path =
       Inr (join [newline]
              (map content (filter (\<lambda>l. type l = LError) (logs (snd (implementFeature env0 state0))))))"
proof -
  from run_first_request_fails [of env0 "Exn ''Error'' ''Connection error.''" state0]
  obtain s5 where "implementFeature env0 state0 = fatal env0 (Exn ''Error'' ''Connection error.'') s5"
    by (auto simp: env0_def)
  then have h: "fst (implementFeature env0 state0) = Returned 1"
    by (simp add: fatal_returns env0_def)
  show ?thesis
    using h fatal_failure_artifacts [OF h] by blast
qed

text \<open>
  The claim as stated fails on the iteration count: a run whose first completion request is
  refused has issued one request, and the snapshot it writes is the object without
  \<^verbatim>\<open>totalIterations\<close>. It also fails when an artifact cannot be written: the error
  thrown in the \<^verbatim>\<open>catch\<close> block leaves the function, and neither file is written.
\<close>

theorem fatal_failure_artifacts_counterexample:
  "fst (implementFeature env0 state0) = Returned 1
   \<and> map fst (requests (snd (implementFeature env0 state0))) = [1]
   \<and> fs (snd (implementFeature env0 state0)) snapshot_path =
       Inr (JSON_stringify_snapshot env0
              \<lparr>snapshot_logs = logs (snd (implementFeature env0 state0)), totalIterations = None,
               error_message = Some ''Connection error.''\<rparr>)
   \<and> fs (snd (implementFeature env0 state0)) snapshot_path \<noteq>
       Inr (JSON_stringify_snapshot env0
              \<lparr>snapshot_logs = logs (snd (implementFeature env0 state0)), totalIterations = Some 1,
               error_message = Some ''Connection error.''\<rparr>)
   \<and> fst (implementFeature env_full state0) =
       Unhandled (Exn ''Error'' ''ENOSPC: no space left on device'')
   \<and> fs (snd (implementFeature env_full state0)) summary_path = fs state0 summary_path
   \<and> fs (snd (implementFeature env_full state0)) snapshot_path = fs state0 snapshot_path"
proof -
  from run_first_request_fails [of env_full "Exn ''Error'' ''Connection error.''" state0]
  obtain s6 where eq': "implementFeature env_full state0 =
        fatal env_full (Exn ''Error'' ''Connection error.'') s6"
    and fs6: "\<forall>p. p \<noteq> log_path \<longrightarrow> fs s6 p = fs state0 p"
    by (auto simp: env_full_def env0_def)
  have w: "write_error env_full summary_path = Some (Exn ''Error'' ''ENOSPC: no space left on device'')"
    by (simp add: env_full_def summary_path_def)
  from fatal_unhandled [OF w, of "Exn ''Error'' ''Connection error.''" s6] eq' fs6
  have 5: "fst (implementFeature env_full state0) =
       Unhandled (Exn ''Error'' ''ENOSPC: no space left on device'')
     \<and> fs (snd (implementFeature env_full state0)) summary_path = fs state0 summary_path
     \<and> fs (snd (implementFeature env_full state0)) snapshot_path = fs state0 snapshot_path"
    by simp
  from run_first_request_fails [of env0 "Exn ''Error'' ''Connection error.''" state0]
  obtain s5 where eq: "implementFeature env0 state0 = fatal env0 (Exn ''Error'' ''Connection error.'') s5"
    and rq: "map fst (requests s5) = map fst (requests state0) @ [1]"
    by (auto simp: env0_def)
  have r: "fst (fatal env0 (Exn ''Error'' ''Connection error.'') s5) = Returned 1"
    by (simp add: fatal_returns env0_def)
  have 1: "fst (implementFeature env0 state0) = Returned 1" using eq r by simp
  have 2: "map fst (requests (snd (implementFeature env0 state0))) = [1]"
    using eq rq by (simp add: state0_def)
  have 3: "fs (snd (implementFeature env0 state0)) snapshot_path =
       Inr (JSON_stringify_snapshot env0
              \<lparr>snapshot_logs = logs (snd (implementFeature env0 state0)), totalIterations = None,
               error_message = Some ''Connection error.''\<rparr>)"
    using fatal_artifacts(2) [OF r] eq by simp
  have 4: "JSON_stringify_snapshot env0
              \<lparr>snapshot_logs = logs (snd (implementFeature env0 state0)), totalIterations = None,
               error_message = Some ''Connection error.''\<rparr> \<noteq>
           JSON_stringify_snapshot env0
              \<lparr>snapshot_logs = logs (snd (implementFeature env0 state0)), totalIterations = Some 1,
               error_message = Some ''Connection error.''\<rparr>"
    by (simp add: env0_def render_snapshot_def)
  from 1 2 3 4 5 show ?thesis by simp
qed

section \<open>The glob tool\<close>

text \<open>
  Claim C7, at a failing input. The pattern is pasted between single quotes into the
  command line. A pattern with a single quote ends the quotation, and the rest of it runs as
  commands whose output does not pass through \<^verbatim>\<open>head -100\<close>: here the tool returns
  102 lines.
\<close>

theorem glob_quote_exceeds_cap:
  "fst (tools_glob env_shell (JString quote_pattern) state0) =
     join [newline] (map show_nat [1..<102] @ ['' -type f''])
   \<and> length (map show_nat [1..<102] @ ['' -type f'']) = 102"
proof -
  have "filter_Boolean (split newline (trim (seq_output 101 @ '' -type f'' @ [newline]))) =
      map show_nat [1..<102] @ ['' -type f'']"
    by code_simp
  then show ?thesis
    by (simp add: tools_glob_def env_shell_def Let_def)
qed

text \<open>
  For a pattern without a quote the command line is the pipeline of \<^verbatim>\<open>find\<close> into
  \<^verbatim>\<open>head -100\<close>, and the cap holds: whatever \<^verbatim>\<open>find\<close> prints, the tool
  returns at most 100 entries, and none when nothing is printed.
\<close>

lemma length_split: "length (split c s) = Suc (count_list s c)"
  by (induction s) (auto split: list.splits)

lemma count_list_dropWhile: "count_list (dropWhile P xs) c \<le> count_list xs c"
proof -
  have "count_list xs c = count_list (takeWhile P xs) c + count_list (dropWhile P xs) c"
    by (metis count_list_append takeWhile_dropWhile_id)
  then show ?thesis by simp
qed

lemma count_list_trim: "count_list (trim s) c \<le> count_list s c"
proof -
  have "count_list (trim s) c \<le> count_list (dropWhile is_space s) c"
    using count_list_dropWhile [of is_space "rev (dropWhile is_space s)" c]
    by (simp add: trim_def)
  also have "\<dots> \<le> count_list s c" by (rule count_list_dropWhile)
  finally show ?thesis .
qed

lemma is_space_newline [simp]: "is_space newline"
  by (simp add: is_space_def newline_def)

lemma count_list_trim_less:
  assumes "s \<noteq> []" and "last s = newline"
  shows "count_list (trim s) newline < count_list s newline"
proof -
  from assms obtain t where s: "s = t @ [newline]"
    by (metis append_butlast_last_id)
  show ?thesis
  proof (cases "\<forall>x\<in>set t. is_space x")
    case True
    then have "\<forall>x\<in>set s. is_space x" using s by simp
    then have "dropWhile is_space s = []" by simp
    then have "trim s = []" by (simp only: trim_def dropWhile.simps rev.simps)
    with s show ?thesis by simp
  next
    case False
    then have d: "dropWhile is_space s = dropWhile is_space t @ [newline]"
      using s by (auto simp: dropWhile_append1)
    have "trim s = rev (dropWhile is_space (rev (dropWhile is_space t)))"
      unfolding trim_def d by simp
    then have "count_list (trim s) newline \<le> count_list t newline"
      using count_list_dropWhile [of is_space "rev (dropWhile is_space t)" newline]
        count_list_dropWhile [of is_space t newline] by simp
    with s show ?thesis by simp
  qed
qed

lemma count_list_takeWhile_neq [simp]: "count_list (takeWhile (\<lambda>x. x \<noteq> c) s) c = 0"
  by (induction s) auto

lemma head_lines_count:
  "count_list (head_lines n s) newline \<le> n
   \<and> (0 < n \<and> count_list (head_lines n s) newline = n \<longrightarrow>
        head_lines n s \<noteq> [] \<and> last (head_lines n s) = newline)"
proof (induction n arbitrary: s)
  case 0
  show ?case by simp
next
  case (Suc n)
  show ?case
  proof (cases "dropWhile (\<lambda>x. x \<noteq> newline) s")
    case Nil
    have "head_lines (Suc n) s = s" by (simp only: head_lines.simps Nil list.case)
    moreover have "newline \<notin> set s" using Nil by auto
    ultimately show ?thesis by simp
  next
    case (Cons c rest)
    have h: "head_lines (Suc n) s =
        takeWhile (\<lambda>x. x \<noteq> newline) s @ [newline] @ head_lines n rest"
      by (simp only: head_lines.simps Cons list.case)
    from Suc.IH [of rest] show ?thesis
      unfolding h by (cases n) auto
  qed
qed

lemma glob_cap:
  "length (filter_Boolean (split newline (trim (head_lines n raw)))) \<le> n"
proof (cases n)
  case 0
  then show ?thesis by (simp add: trim_def filter_Boolean_def)
next
  case (Suc m)
  let ?H = "head_lines n raw"
  have "length (filter_Boolean (split newline (trim ?H))) \<le> Suc (count_list (trim ?H) newline)"
    by (simp add: filter_Boolean_def length_split [symmetric])
  also have "\<dots> \<le> n"
  proof (cases "count_list ?H newline = n")
    case True
    with head_lines_count [of n raw] Suc have "?H \<noteq> []" "last ?H = newline" by auto
    from count_list_trim_less [OF this] True show ?thesis by simp
  next
    case False
    with head_lines_count [of n raw] have "count_list ?H newline < n" by simp
    with count_list_trim [of ?H newline] show ?thesis by simp
  qed
  finally show ?thesis .
qed

lemma glob_piped:
  assumes "exec e (find_command p) None (fs (log e LTool (''Glob pattern: '' @ p) None s)) =
             (Resolved (head_lines 100 raw) errout, f)"
  shows "fst (tools_glob e (JString p) s) =
           join [newline] (filter_Boolean (split newline (trim (head_lines 100 raw))))"
    and "length (filter_Boolean (split newline (trim (head_lines 100 raw)))) \<le> 100"
    and "raw = [] \<Longrightarrow> fst (tools_glob e (JString p) s) = []"
proof -
  show 1: "fst (tools_glob e (JString p) s) =
           join [newline] (filter_Boolean (split newline (trim (head_lines 100 raw))))"
    using assms by (simp add: tools_glob_def Let_def)
  show "length (filter_Boolean (split newline (trim (head_lines 100 raw)))) \<le> 100"
    by (rule glob_cap)
  have "head_lines 100 [] = []" by code_simp
  then show "raw = [] \<Longrightarrow> fst (tools_glob e (JString p) s) = []"
    using 1 by (simp add: trim_def filter_Boolean_def)
qed

end
